theory Spec2Isabelle
  imports Complex_Main "HOL-Library.Sublist"
begin

section \<open>Data model\<close>

text \<open>
  The interface \<^verbatim>\<open>PIIDetection\<close> of \<^verbatim>\<open>types/index.ts\<close>. The field \<^verbatim>\<open>type\<close> is
  \<open>dtype\<close> and the optional occurrence index \<^verbatim>\<open>i\<close> is \<open>idx\<close> (\<open>None\<close> is
  \<^verbatim>\<open>undefined\<close>); an occurrence index is a position, hence a natural number. The optional
  fields \<^verbatim>\<open>start_position\<close> and \<^verbatim>\<open>end_position\<close> are read by none of the functions below.
  The source's \<^verbatim>\<open>confidence\<close> is a double, here a rational number: the product
  \<^verbatim>\<open>confidence * 100\<close> is exact in the model and rounded in the source, and the two agree
  at the value \<^verbatim>\<open>1.0\<close> the tagging engines write. Strings are lists of \<^typ>\<open>char\<close>, the
  code units 0 to 255.
\<close>

record PIIDetection =
  dtype :: string
  original :: string
  replacement :: string
  confidence :: rat
  explanation :: "string option"
  idx :: "nat option"

section \<open>String primitives of the host language\<close>

text \<open>\<^verbatim>\<open>text.indexOf(pat)\<close>: the first offset at which \<open>pat\<close> occurs, \<open>None\<close> for \<^verbatim>\<open>-1\<close>.\<close>

fun indexOf :: "string \<Rightarrow> string \<Rightarrow> nat option" where
  "indexOf [] pat = (if pat = [] then Some 0 else None)"
| "indexOf (c # cs) pat =
     (if prefix pat (c # cs) then Some 0 else map_option Suc (indexOf cs pat))"

text \<open>\<^verbatim>\<open>text.indexOf(pat, searchFrom)\<close>; a start beyond the end is clamped to the end.\<close>

definition indexOfFrom :: "string \<Rightarrow> string \<Rightarrow> nat \<Rightarrow> nat option" where
  "indexOfFrom text pat searchFrom =
     (let start = min searchFrom (length text)
      in map_option (\<lambda>p. start + p) (indexOf (drop start text) pat))"

text \<open>
  The expansion of a replacement template by \<^verbatim>\<open>String.prototype.replace\<close> when the pattern
  has no capture group: \<^verbatim>\<open>$$\<close> is a dollar sign, \<^verbatim>\<open>$&\<close> the matched text, \<^verbatim>\<open>$`\<close> the text
  before the match and \<^verbatim>\<open>$'\<close> the text after it; every other character stands for itself.
\<close>

fun getSubstitution :: "string \<Rightarrow> string \<Rightarrow> string \<Rightarrow> string \<Rightarrow> string" where
  "getSubstitution matched preceding after (c1 # c2 # cs) =
     (if c1 = CHR ''$'' \<and> c2 = CHR ''$'' then CHR ''$'' # getSubstitution matched preceding after cs
      else if c1 = CHR ''$'' \<and> c2 = CHR ''&'' then matched @ getSubstitution matched preceding after cs
      else if c1 = CHR ''$'' \<and> c2 = CHR 0x60 then preceding @ getSubstitution matched preceding after cs
      else if c1 = CHR ''$'' \<and> c2 = CHR 0x27 then after @ getSubstitution matched preceding after cs
      else c1 # getSubstitution matched preceding after (c2 # cs))"
| "getSubstitution matched preceding after cs = cs"

text \<open>\<^verbatim>\<open>text.replace(pat, rep)\<close> with a string pattern: only the first occurrence is replaced.\<close>

definition replaceFirst :: "string \<Rightarrow> string \<Rightarrow> string \<Rightarrow> string" where
  "replaceFirst text pat rep =
     (case indexOf text pat of
        None \<Rightarrow> text
      | Some p \<Rightarrow>
          take p text
          @ getSubstitution pat (take p text) (drop (p + length pat) text) rep
          @ drop (p + length pat) text)"

text \<open>
  Case folding of a regular expression with the flag \<^verbatim>\<open>i\<close> (\<^verbatim>\<open>Canonicalize\<close> of the host
  language), on the code units 0 to 255: a character goes to its upper case when that is one
  code unit, and never from a non-ASCII character to an ASCII one. So the letters a to z
  (\<^verbatim>\<open>0x61\<close> to \<^verbatim>\<open>0x7A\<close>) and the accented letters \<^verbatim>\<open>0xE0\<close> to \<^verbatim>\<open>0xFE\<close>, without the
  division sign \<^verbatim>\<open>0xF7\<close>, go to the character 32 below. The sharp s \<^verbatim>\<open>0xDF\<close> (upper case
  of two code units) stays; the micro sign \<^verbatim>\<open>0xB5\<close> and \<^verbatim>\<open>0xFF\<close> have their upper case
  beyond 255, shared with no other code unit of the range, and match only themselves, as
  here.
\<close>

definition lowerCaseLetters :: string where
  "lowerCaseLetters =
     [
      CHR 0x61, CHR 0x62, CHR 0x63, CHR 0x64, CHR 0x65, CHR 0x66, CHR 0x67, CHR 0x68,
      CHR 0x69, CHR 0x6A, CHR 0x6B, CHR 0x6C, CHR 0x6D, CHR 0x6E, CHR 0x6F, CHR 0x70,
      CHR 0x71, CHR 0x72, CHR 0x73, CHR 0x74, CHR 0x75, CHR 0x76, CHR 0x77, CHR 0x78,
      CHR 0x79, CHR 0x7A, CHR 0xE0, CHR 0xE1, CHR 0xE2, CHR 0xE3, CHR 0xE4, CHR 0xE5,
      CHR 0xE6, CHR 0xE7, CHR 0xE8, CHR 0xE9, CHR 0xEA, CHR 0xEB, CHR 0xEC, CHR 0xED,
      CHR 0xEE, CHR 0xEF, CHR 0xF0, CHR 0xF1, CHR 0xF2, CHR 0xF3, CHR 0xF4, CHR 0xF5,
      CHR 0xF6, CHR 0xF8, CHR 0xF9, CHR 0xFA, CHR 0xFB, CHR 0xFC, CHR 0xFD, CHR 0xFE]"

definition upperCaseLetters :: string where
  "upperCaseLetters =
     [
      CHR 0x41, CHR 0x42, CHR 0x43, CHR 0x44, CHR 0x45, CHR 0x46, CHR 0x47, CHR 0x48,
      CHR 0x49, CHR 0x4A, CHR 0x4B, CHR 0x4C, CHR 0x4D, CHR 0x4E, CHR 0x4F, CHR 0x50,
      CHR 0x51, CHR 0x52, CHR 0x53, CHR 0x54, CHR 0x55, CHR 0x56, CHR 0x57, CHR 0x58,
      CHR 0x59, CHR 0x5A, CHR 0xC0, CHR 0xC1, CHR 0xC2, CHR 0xC3, CHR 0xC4, CHR 0xC5,
      CHR 0xC6, CHR 0xC7, CHR 0xC8, CHR 0xC9, CHR 0xCA, CHR 0xCB, CHR 0xCC, CHR 0xCD,
      CHR 0xCE, CHR 0xCF, CHR 0xD0, CHR 0xD1, CHR 0xD2, CHR 0xD3, CHR 0xD4, CHR 0xD5,
      CHR 0xD6, CHR 0xD8, CHR 0xD9, CHR 0xDA, CHR 0xDB, CHR 0xDC, CHR 0xDD, CHR 0xDE]"

definition canonicalize :: "char \<Rightarrow> char" where
  "canonicalize c =
     (case map_of (zip lowerCaseLetters upperCaseLetters) c of
        Some u \<Rightarrow> u
      | None \<Rightarrow> c)"

text \<open>
  \<^verbatim>\<open>s.replace(new RegExp(escape(pat), flags), rep)\<close> with the flag \<^verbatim>\<open>g\<close>: the escaped
  pattern matches \<open>pat\<close> literally, under the case folding \<open>canon\<close> (the identity without
  the flag \<^verbatim>\<open>i\<close>). Matches are taken left to right and do not overlap; \<open>preceding\<close> is the
  part of the subject already scanned. The empty pattern matches before every character and
  at the end.
\<close>

function regexReplaceAll ::
  "(char \<Rightarrow> char) \<Rightarrow> string \<Rightarrow> string \<Rightarrow> string \<Rightarrow> string \<Rightarrow> string" where
  "regexReplaceAll canon pat rep preceding s =
     (if prefix (map canon pat) (map canon s) then
        (if pat = [] then
           (case s of
              [] \<Rightarrow> getSubstitution [] preceding [] rep
            | c # cs \<Rightarrow>
                getSubstitution [] preceding s rep
                @ c # regexReplaceAll canon pat rep (preceding @ [c]) cs)
         else
           getSubstitution (take (length pat) s) preceding (drop (length pat) s) rep
           @ regexReplaceAll canon pat rep (preceding @ take (length pat) s) (drop (length pat) s))
      else
        (case s of
           [] \<Rightarrow> []
         | c # cs \<Rightarrow> c # regexReplaceAll canon pat rep (preceding @ [c]) cs))"
  by pat_completeness auto
termination
proof (relation "measure (\<lambda>(canon, pat, rep, preceding, s). length s)")
  show "wf (measure (\<lambda>(canon, pat, rep, preceding, s). length s))"
    by simp
next
  fix canon :: "char \<Rightarrow> char" and pat rep preceding s :: string
  assume m: "prefix (map canon pat) (map canon s)" and ne: "pat \<noteq> []"
  from m have "length pat \<le> length s"
    using prefix_length_le by fastforce
  with ne show "((canon, pat, rep, preceding @ take (length pat) s, drop (length pat) s),
                 (canon, pat, rep, preceding, s))
                \<in> measure (\<lambda>(canon, pat, rep, preceding, s). length s)"
    by (cases pat) auto
qed auto

declare regexReplaceAll.simps [simp del]



text \<open>
  The loop \<^verbatim>\<open>while ((match = regex.exec(text)) !== null)\<close> of \<^verbatim>\<open>applyInactiveOccurrences\<close>,
  which leaves at the match reached when \<^verbatim>\<open>occurrenceCount\<close> equals the wanted number: the
  offset of match number \<open>k\<close> (from 0) of the literal pattern, \<open>None\<close> when the matches run
  out first. After an empty match \<^verbatim>\<open>lastIndex\<close> does not move, so the empty pattern matches
  at the same offset until the count is reached.
\<close>

fun nthMatch :: "string \<Rightarrow> string \<Rightarrow> nat \<Rightarrow> nat option" where
  "nthMatch text pat 0 = indexOf text pat"
| "nthMatch text pat (Suc k) =
     (case indexOf text pat of
        None \<Rightarrow> None
      | Some p \<Rightarrow>
          if pat = [] then Some p
          else map_option (\<lambda>q. p + length pat + q)
                 (nthMatch (drop (p + length pat) text) pat k))"

section \<open>Export Reversal\<close>

text \<open>
  \<^verbatim>\<open>applyInactiveOccurrences\<close> (ChatInterface): the detections whose \<^verbatim>\<open>i\<close> is in the inactive
  set, sorted by \<^verbatim>\<open>i\<close> descending (the sort is stable); for each, the match of its placeholder
  whose running count equals \<^verbatim>\<open>detection.i\<close> is replaced by the original.
\<close>

definition substituteOccurrence :: "PIIDetection \<Rightarrow> string \<Rightarrow> string" where
  "substituteOccurrence detection adjustedText =
     (case idx detection of
        None \<Rightarrow> adjustedText
      | Some i \<Rightarrow>
          (case nthMatch adjustedText (replacement detection) i of
             None \<Rightarrow> adjustedText
           | Some m \<Rightarrow>
               take m adjustedText @ original detection
               @ drop (m + length (replacement detection)) adjustedText))"

definition applyInactiveOccurrences :: "string \<Rightarrow> PIIDetection list \<Rightarrow> nat set \<Rightarrow> string" where
  "applyInactiveOccurrences text detections inactiveIndices =
     fold substituteOccurrence
       (sort_key (\<lambda>d. - int (case idx d of None \<Rightarrow> 0 | Some i \<Rightarrow> i))
          (filter (\<lambda>d. case idx d of None \<Rightarrow> False | Some i \<Rightarrow> i \<in> inactiveIndices)
             detections))
       text"

text \<open>Scenario A of the specification.\<close>

definition scenarioA_text :: string where
  "scenarioA_text = ''Contact [NAME_1] at [EMAIL].''"

definition scenarioA_detections :: "PIIDetection list" where
  "scenarioA_detections =
     [\<lparr>dtype = ''name'', original = ''John Smith'', replacement = ''[NAME_1]'',
       confidence = 95 / 100, explanation = None, idx = Some 0\<rparr>,
      \<lparr>dtype = ''email'', original = ''j@x.com'', replacement = ''[EMAIL]'',
       confidence = 99 / 100, explanation = None, idx = Some 1\<rparr>]"

section \<open>Occurrence Activation State\<close>

text \<open>
  The state \<^verbatim>\<open>inactiveOccurrences\<close> of ChatInterface is a \<^verbatim>\<open>Map\<close> from the index of a
  message to the set of its inactive occurrence indices; a message without an entry has none
  (\<^verbatim>\<open>prev.get(messageIndex) || []\<close>).
\<close>

type_synonym inactive_map = "nat \<rightharpoonup> nat set"

definition messageInactives :: "inactive_map \<Rightarrow> nat \<Rightarrow> nat set" where
  "messageInactives m messageIndex = (case m messageIndex of None \<Rightarrow> {} | Some s \<Rightarrow> s)"

text \<open>
  \<^verbatim>\<open>handleToggleOccurrence\<close>: the functional update handed to \<^verbatim>\<open>setInactiveOccurrences\<close>.
  An entry that becomes empty is deleted from the map.
\<close>

definition handleToggleOccurrence :: "nat \<Rightarrow> nat \<Rightarrow> bool \<Rightarrow> inactive_map \<Rightarrow> inactive_map" where
  "handleToggleOccurrence messageIndex occurrenceIndex makeActive prev =
     (let s = (if makeActive then messageInactives prev messageIndex - {occurrenceIndex}
               else insert occurrenceIndex (messageInactives prev messageIndex))
      in if s = {} then prev(messageIndex := None) else prev(messageIndex \<mapsto> s))"

text \<open>\<^verbatim>\<open>detection.i ?? index\<close>: the occurrence index of the detection at array index \<open>i\<close>.\<close>

definition occurrenceIndex :: "PIIDetection \<Rightarrow> nat \<Rightarrow> nat" where
  "occurrenceIndex detection i = (case idx detection of None \<Rightarrow> i | Some k \<Rightarrow> k)"

text \<open>
  \<^verbatim>\<open>handleToggleAllOccurrences\<close>; \<open>detected_pii\<close> is \<open>None\<close> when the message has no
  \<^verbatim>\<open>reasoning\<close>, and the handler returns at once.
\<close>

definition handleToggleAllOccurrences ::
  "PIIDetection list option \<Rightarrow> nat \<Rightarrow> string \<Rightarrow> bool \<Rightarrow> inactive_map \<Rightarrow> inactive_map" where
  "handleToggleAllOccurrences detected_pii messageIndex placeholder makeActive prev =
     (case detected_pii of
        None \<Rightarrow> prev
      | Some dets \<Rightarrow>
          (let s = fold (\<lambda>(i, detection) acc.
                      if replacement detection = placeholder
                      then (if makeActive then acc - {occurrenceIndex detection i}
                            else insert (occurrenceIndex detection i) acc)
                      else acc)
                    (List.enumerate 0 dets) (messageInactives prev messageIndex)
           in if s = {} then prev(messageIndex := None) else prev(messageIndex \<mapsto> s)))"

text \<open>
  \<^verbatim>\<open>handleToggleEntity\<close>. The state of ChatInterface is declared by
  \<^verbatim>\<open>useState\<close> as \<^verbatim>\<open>inactiveOccurrences\<close> and \<^verbatim>\<open>inactiveEntities\<close> only. After the guard
  \<^verbatim>\<open>if (!message?.reasoning?.detected_pii) return\<close> and the (pure) collection of the
  replacements of the entity, the handler calls \<^verbatim>\<open>setInactiveReplacements\<close>, an identifier
  that is declared nowhere: evaluating it throws a \<^verbatim>\<open>ReferenceError\<close>, before any state
  update is queued and before the call of \<^verbatim>\<open>setInactiveEntities\<close> that follows it.
\<close>

datatype js_error = ReferenceError string

record chat_state =
  inactiveOccurrences :: inactive_map
  inactiveEntities :: "nat \<rightharpoonup> string set"

definition handleToggleEntity ::
  "PIIDetection list option \<Rightarrow> nat \<Rightarrow> string \<Rightarrow> bool \<Rightarrow> chat_state \<Rightarrow> js_error + chat_state" where
  "handleToggleEntity detected_pii messageIndex originalText makeActive st =
     (case detected_pii of
        None \<Rightarrow> Inr st
      | Some dets \<Rightarrow> Inl (ReferenceError ''setInactiveReplacements''))"

text \<open>The state after a handler has run: a handler that throws has queued no update.\<close>

definition stateAfter :: "chat_state \<Rightarrow> js_error + chat_state \<Rightarrow> chat_state" where
  "stateAfter st r = (case r of Inl e \<Rightarrow> st | Inr st' \<Rightarrow> st')"

text \<open>
  \<^verbatim>\<open>handleSliderChange\<close> (ResultDisplay). \<open>inactiveOccs\<close> is the property
  \<^verbatim>\<open>inactiveOccurrences\<close> of the component, the set of the message as it was rendered; each
  call of \<^verbatim>\<open>onToggleOccurrence\<close> queues an update \<^verbatim>\<open>handleToggleOccurrence\<close>, and the queued
  updates are applied to the state in order.
\<close>

definition handleSliderChange ::
  "rat \<Rightarrow> PIIDetection list \<Rightarrow> nat set \<Rightarrow> nat \<Rightarrow> inactive_map \<Rightarrow> inactive_map" where
  "handleSliderChange val dets inactiveOccs messageIndex st =
     (let st1 = fold (\<lambda>(i, detection) s.
                   if occurrenceIndex detection i \<in> inactiveOccs
                   then handleToggleOccurrence messageIndex (occurrenceIndex detection i) True s
                   else s)
                 (List.enumerate 0 dets) st
      in if 0 < val
         then fold (\<lambda>(i, detection) s.
                   if confidence detection * 100 < val
                   then handleToggleOccurrence messageIndex (occurrenceIndex detection i) False s
                   else s)
                 (List.enumerate 0 dets) st1
         else st1)"

text \<open>The occurrence indices of a detection list, and those of its detections below a threshold.\<close>

definition occurrenceIndices :: "PIIDetection list \<Rightarrow> nat set" where
  "occurrenceIndices dets = set (map (\<lambda>(i, d). occurrenceIndex d i) (List.enumerate 0 dets))"

definition belowThreshold :: "rat \<Rightarrow> PIIDetection list \<Rightarrow> nat set" where
  "belowThreshold val dets =
     set (map (\<lambda>(i, d). occurrenceIndex d i)
            (filter (\<lambda>(i, d). confidence d * 100 < val) (List.enumerate 0 dets)))"

section \<open>Manual Tagging Engine and Replace-All Engine\<close>

text \<open>
  \<^verbatim>\<open>getPlaceholderType\<close> (TextSelectionReplacer). The selected entity type is one of the thirteen
  types the picker offers; any other string gives \<^verbatim>\<open>UNKNOWN\<close>.
\<close>

definition typeMapping :: "(string \<times> string) list" where
  "typeMapping =
     [(''name'', ''NAME''), (''email'', ''EMAIL''), (''phone'', ''PHONE''),
      (''address'', ''ADDRESS''), (''ssn'', ''SSN''), (''org'', ''ORG''),
      (''birth-date'', ''BIRTH_DATE''), (''id'', ''ID''), (''proprietary'', ''PROPRIETARY''),
      (''location'', ''LOCATION''), (''product'', ''PRODUCT''), (''service'', ''SERVICE''),
      (''project'', ''PROJECT'')]"

definition getPlaceholderType :: "string \<Rightarrow> string" where
  "getPlaceholderType entityType =
     (case map_of typeMapping entityType of Some p \<Rightarrow> p | None \<Rightarrow> ''UNKNOWN'')"

text \<open>
  Decimal digits: the class \<^verbatim>\<open>\d\<close>, \<^verbatim>\<open>parseInt\<close> on a string of digits, and the decimal
  form of a number in a template literal. Numbers are unbounded here.
\<close>

definition isDigit :: "char \<Rightarrow> bool" where
  "isDigit c = (c \<in> set ''0123456789'')"

definition digitValue :: "char \<Rightarrow> nat" where
  "digitValue c =
     (case map_of (zip ''0123456789'' [0, 1, 2, 3, 4, 5, 6, 7, 8, 9]) c of
        Some v \<Rightarrow> v
      | None \<Rightarrow> 0)"

definition parseInt :: "string \<Rightarrow> nat" where
  "parseInt ds = foldl (\<lambda>a d. 10 * a + digitValue d) 0 ds"

fun numberToString :: "nat \<Rightarrow> string" where
  "numberToString n =
     (if n < 10 then [''0123456789'' ! n]
      else numberToString (n div 10) @ [''0123456789'' ! (n mod 10)])"

declare numberToString.simps [simp del]

text \<open>The string \<^verbatim>\<open>`[${placeholderType}_`\<close> with which a placeholder of the type starts.\<close>

definition placeholderPrefix :: "string \<Rightarrow> string" where
  "placeholderPrefix placeholderType = CHR ''['' # placeholderType @ ''_''"

text \<open>
  The regular expression \<^verbatim>\<open>\[TYPE_(\d+)\]\<close> at the head of \<open>s\<close>: the length of the match
  and the number of its group. The digits are taken greedily and a closing bracket must
  follow them.
\<close>

definition matchNumbered :: "string \<Rightarrow> string \<Rightarrow> (nat \<times> nat) option" where
  "matchNumbered placeholderType s =
     (if prefix (placeholderPrefix placeholderType) s then
        (let rest = drop (length (placeholderPrefix placeholderType)) s;
             ds = takeWhile isDigit rest
         in if ds \<noteq> [] \<and> prefix '']'' (drop (length ds) rest)
            then Some (length (placeholderPrefix placeholderType) + length ds + 1, parseInt ds)
            else None)
      else None)"

text \<open>The loop over \<^verbatim>\<open>placeholderRegex.exec(anonymizedText)\<close> that fills \<^verbatim>\<open>existingNumbers\<close>.\<close>

function existingNumbers :: "string \<Rightarrow> string \<Rightarrow> nat list" where
  "existingNumbers placeholderType s =
     (if s = [] then []
      else (case matchNumbered placeholderType s of
              Some (len, n) \<Rightarrow> n # existingNumbers placeholderType (drop len s)
            | None \<Rightarrow> existingNumbers placeholderType (tl s)))"
  by pat_completeness auto
termination
  by (relation "measure (\<lambda>(placeholderType, s). length s)")
     (auto simp: matchNumbered_def Let_def neq_Nil_conv split: if_splits)

declare existingNumbers.simps [simp del]

text \<open>\<^verbatim>\<open>while (existingNumbers.has(placeholderNumber)) placeholderNumber++\<close>.\<close>

function nextFree :: "nat list \<Rightarrow> nat \<Rightarrow> nat" where
  "nextFree used placeholderNumber =
     (if placeholderNumber \<in> set used then nextFree used (Suc placeholderNumber)
      else placeholderNumber)"
  by pat_completeness auto
termination
proof (relation "measure (\<lambda>(used, n). Suc (Max (insert 0 (set used))) - n)")
  show "wf (measure (\<lambda>(used, n). Suc (Max (insert 0 (set used))) - n))"
    by simp
next
  fix used :: "nat list" and n :: nat
  assume "n \<in> set used"
  then have "n \<le> Max (insert 0 (set used))"
    by (simp add: Max_ge)
  then show "((used, Suc n), (used, n))
      \<in> measure (\<lambda>(used, n). Suc (Max (insert 0 (set used))) - n)"
    by simp
qed

declare nextFree.simps [simp del]

text \<open>
  The test both handlers make on a detection: \<^verbatim>\<open>detection.original === selection.text &&
  detection.replacement.startsWith(`[${placeholderType}_`)\<close>.
\<close>

definition tagsOriginal :: "string \<Rightarrow> string \<Rightarrow> PIIDetection \<Rightarrow> bool" where
  "tagsOriginal selectionText placeholderType detection =
     (original detection = selectionText
      \<and> prefix (placeholderPrefix placeholderType) (replacement detection))"

text \<open>
  The placeholder both handlers settle on: the replacement of the first detection that passes
  the test, otherwise a new one with the smallest number from 1 that no token of the type in
  the text carries.
\<close>

definition choosePlaceholder :: "string \<Rightarrow> PIIDetection list \<Rightarrow> string \<Rightarrow> string \<Rightarrow> string" where
  "choosePlaceholder anonymizedText detections selectionText placeholderType =
     (case find (tagsOriginal selectionText placeholderType) detections of
        Some detection \<Rightarrow> replacement detection
      | None \<Rightarrow>
          placeholderPrefix placeholderType
          @ numberToString (nextFree (existingNumbers placeholderType anonymizedText) 1)
          @ '']'')"

text \<open>
  The loop that finds \<^verbatim>\<open>insertIndex\<close>: it passes over the detections whose replacement is
  found in the new text (\<^verbatim>\<open>detectionPos !== -1\<close>) before \<open>position\<close>, and breaks at the first
  one that is not. A \<open>position\<close> of \<^verbatim>\<open>-1\<close> is \<open>None\<close>; no offset is below it.
\<close>

definition occursBefore :: "string \<Rightarrow> nat option \<Rightarrow> PIIDetection \<Rightarrow> bool" where
  "occursBefore newText position detection =
     (case indexOf newText (replacement detection) of
        None \<Rightarrow> False
      | Some detectionPos \<Rightarrow>
          (case position of None \<Rightarrow> False | Some p \<Rightarrow> detectionPos < p))"

definition findInsertIndex :: "string \<Rightarrow> nat option \<Rightarrow> PIIDetection list \<Rightarrow> nat" where
  "findInsertIndex newText position newDetections =
     length (takeWhile (occursBefore newText position) newDetections)"

text \<open>
  \<^verbatim>\<open>for (let i = insertIndex + 1; ...) if (newDetections[i].i !== undefined)
  newDetections[i].i = i\<close>, on the detections from array index \<open>i\<close> on.
\<close>

fun renumber :: "nat \<Rightarrow> PIIDetection list \<Rightarrow> PIIDetection list" where
  "renumber i [] = []"
| "renumber i (d # ds) =
     (if idx d \<noteq> None then d\<lparr>idx := Some i\<rparr> else d) # renumber (Suc i) ds"

text \<open>The record both handlers insert, and the \<^verbatim>\<open>splice\<close> followed by the renumbering.\<close>

definition manualDetection :: "string \<Rightarrow> string \<Rightarrow> string \<Rightarrow> nat \<Rightarrow> PIIDetection" where
  "manualDetection selectedEntityType selectionText placeholder insertIndex =
     \<lparr>dtype = selectedEntityType, original = selectionText, replacement = placeholder,
      confidence = 1, explanation = Some (''Manually tagged as '' @ selectedEntityType),
      idx = Some insertIndex\<rparr>"

definition spliceDetection ::
  "string \<Rightarrow> string \<Rightarrow> string \<Rightarrow> nat \<Rightarrow> PIIDetection list \<Rightarrow> PIIDetection list" where
  "spliceDetection selectedEntityType selectionText placeholder insertIndex newDetections =
     take insertIndex newDetections
     @ manualDetection selectedEntityType selectionText placeholder insertIndex
     # renumber (Suc insertIndex) (drop insertIndex newDetections)"

text \<open>
  \<^verbatim>\<open>handleReplace\<close>: the text and the detections handed to \<^verbatim>\<open>onReplace\<close>, which stores
  them in the message. Without a selection (its text is never empty) or an entity type the
  handler does nothing.
\<close>

definition handleReplace ::
  "string \<Rightarrow> PIIDetection list \<Rightarrow> string \<Rightarrow> string \<Rightarrow> string \<times> PIIDetection list" where
  "handleReplace anonymizedText detections selectionText selectedEntityType =
     (if selectionText = [] \<or> selectedEntityType = [] then (anonymizedText, detections)
      else
        (let placeholderType = getPlaceholderType selectedEntityType;
             existingPlaceholder =
               choosePlaceholder anonymizedText detections selectionText placeholderType;
             newText = replaceFirst anonymizedText selectionText existingPlaceholder
         in if find (tagsOriginal selectionText placeholderType) detections = None
            then
              (let position = indexOf newText existingPlaceholder;
                   insertIndex = findInsertIndex newText position detections
               in (newText,
                   spliceDetection selectedEntityType selectionText existingPlaceholder
                     insertIndex detections))
            else (newText, detections)))"

text \<open>
  The loop \<^verbatim>\<open>pos = newText.indexOf(existingPlaceholder, searchFrom)\<close> of
  \<^verbatim>\<open>handleReplaceAll\<close>. The placeholder it is given is never empty (it starts with an opening
  bracket); on an empty one the source would not leave the loop, and the model returns no
  position.
\<close>

function replacementPositions :: "string \<Rightarrow> string \<Rightarrow> nat \<Rightarrow> nat list" where
  "replacementPositions newText placeholder searchFrom =
     (if placeholder = [] then []
      else (case indexOfFrom newText placeholder searchFrom of
              None \<Rightarrow> []
            | Some pos \<Rightarrow>
                pos # replacementPositions newText placeholder (pos + length placeholder)))"
  by pat_completeness auto
termination
proof (relation "measure (\<lambda>(newText, placeholder, searchFrom). length newText - searchFrom)")
  show "wf (measure (\<lambda>(newText, placeholder, searchFrom). length newText - searchFrom))"
    by simp
next
  fix newText placeholder :: string and searchFrom pos :: nat
  assume ne: "placeholder \<noteq> []" and f: "indexOfFrom newText placeholder searchFrom = Some pos"
  have b: "p + length pat \<le> length s" if "indexOf s pat = Some p" for s pat p
    using that
  proof (induction s arbitrary: p)
    case Nil
    then show ?case by (auto split: if_splits)
  next
    case (Cons c cs)
    then show ?case
      by (auto split: if_splits dest: prefix_length_le)
  qed
  from f obtain p
    where p: "indexOf (drop (min searchFrom (length newText)) newText) placeholder = Some p"
      and pos: "pos = min searchFrom (length newText) + p"
    by (auto simp: indexOfFrom_def Let_def)
  from ne obtain n where lp: "length placeholder = Suc n"
    by (cases placeholder) auto
  from b[OF p]
  have "min searchFrom (length newText) + (p + length placeholder) \<le> length newText"
    by simp
  with lp pos have "length newText - (pos + length placeholder) < length newText - searchFrom"
    by (simp add: min_def split: if_splits)
  then show "((newText, placeholder, pos + length placeholder), (newText, placeholder, searchFrom))
      \<in> measure (\<lambda>(newText, placeholder, searchFrom). length newText - searchFrom)"
    by simp
qed

declare replacementPositions.simps [simp del]

text \<open>
  The body of \<^verbatim>\<open>replacementPositions.forEach\<close>: unless some detection has the selected text,
  the placeholder, and the \<^emph>\<open>first\<close> offset of the placeholder in the new text equal to
  \<open>position\<close>, a detection is inserted.
\<close>

definition tagPosition ::
  "string \<Rightarrow> string \<Rightarrow> string \<Rightarrow> string \<Rightarrow> nat \<Rightarrow> PIIDetection list \<Rightarrow> PIIDetection list" where
  "tagPosition newText selectedEntityType selectionText placeholder position newDetections =
     (if list_ex (\<lambda>d. original d = selectionText \<and> replacement d = placeholder
                      \<and> indexOf newText (replacement d) = Some position) newDetections
      then newDetections
      else spliceDetection selectedEntityType selectionText placeholder
             (findInsertIndex newText (Some position) newDetections) newDetections)"

text \<open>\<^verbatim>\<open>handleReplaceAll\<close>: the text and the detections handed to \<^verbatim>\<open>onReplaceAll\<close>.\<close>

definition handleReplaceAll ::
  "string \<Rightarrow> PIIDetection list \<Rightarrow> string \<Rightarrow> string \<Rightarrow> string \<times> PIIDetection list" where
  "handleReplaceAll anonymizedText detections selectionText selectedEntityType =
     (if selectionText = [] \<or> selectedEntityType = [] then (anonymizedText, detections)
      else
        (let placeholderType = getPlaceholderType selectedEntityType;
             existingPlaceholder =
               choosePlaceholder anonymizedText detections selectionText placeholderType;
             newText = regexReplaceAll canonicalize selectionText existingPlaceholder []
                         anonymizedText
         in (newText,
             fold (tagPosition newText selectedEntityType selectionText existingPlaceholder)
               (replacementPositions newText existingPlaceholder 0) detections)))"

section \<open>Position Resolver and rendering\<close>

text \<open>
  The regular expression \<^verbatim>\<open>/\[([A-Z_0-9]+)\]/g\<close> of InteractiveAnonymizedText: the length of
  its match at the head of \<open>s\<close>, and the successive results \<^verbatim>\<open>(match.index, match[0])\<close> of
  \<^verbatim>\<open>placeholderRegex.exec\<close> (\<open>off\<close> is the offset of \<open>s\<close> in the text).
\<close>

definition isPlaceholderChar :: "char \<Rightarrow> bool" where
  "isPlaceholderChar c = (c \<in> set ''ABCDEFGHIJKLMNOPQRSTUVWXYZ_0123456789'')"

definition matchPlaceholder :: "string \<Rightarrow> nat option" where
  "matchPlaceholder s =
     (case s of
        [] \<Rightarrow> None
      | c # rest \<Rightarrow>
          if c = CHR ''[''
          then (let body = takeWhile isPlaceholderChar rest
                in if body \<noteq> [] \<and> prefix '']'' (drop (length body) rest)
                   then Some (length body + 2) else None)
          else None)"

function placeholderMatches :: "nat \<Rightarrow> string \<Rightarrow> (nat \<times> string) list" where
  "placeholderMatches off s =
     (if s = [] then []
      else (case matchPlaceholder s of
              Some len \<Rightarrow> (off, take len s) # placeholderMatches (off + len) (drop len s)
            | None \<Rightarrow> placeholderMatches (Suc off) (tl s)))"
  by pat_completeness auto
termination
  by (relation "measure (\<lambda>(off, s). length s)")
     (auto simp: matchPlaceholder_def Let_def neq_Nil_conv split: if_splits list.splits)

declare placeholderMatches.simps [simp del]

text \<open>\<^verbatim>\<open>replacementMap\<close>: the first detection of each placeholder.\<close>

definition replacementMap :: "PIIDetection list \<Rightarrow> (string \<rightharpoonup> PIIDetection)" where
  "replacementMap detections =
     fold (\<lambda>detection m.
             if m (replacement detection) = None then m(replacement detection \<mapsto> detection)
             else m)
       detections Map.empty"

text \<open>
  \<^verbatim>\<open>positionToDetection\<close>: one step of its loop, on the counts of the placeholders seen so far
  and the map built so far, and the whole loop.
\<close>

definition bindOccurrence ::
  "PIIDetection list \<Rightarrow> nat \<times> string \<Rightarrow> (string \<rightharpoonup> nat) \<times> (nat \<rightharpoonup> PIIDetection)
     \<Rightarrow> (string \<rightharpoonup> nat) \<times> (nat \<rightharpoonup> PIIDetection)" where
  "bindOccurrence detections m st =
     (case m of (position, placeholder) \<Rightarrow>
        (case st of (placeholderCounts, mp) \<Rightarrow>
           (let count = (case placeholderCounts placeholder of None \<Rightarrow> 0 | Some n \<Rightarrow> n);
                matchingDetections = filter (\<lambda>d. replacement d = placeholder) detections
            in (placeholderCounts(placeholder \<mapsto> count + 1),
                if count < length matchingDetections
                then mp(position \<mapsto> matchingDetections ! count) else mp))))"

definition positionToDetection :: "string \<Rightarrow> PIIDetection list \<Rightarrow> (nat \<rightharpoonup> PIIDetection)" where
  "positionToDetection anonymizedText detections =
     snd (fold (bindOccurrence detections) (placeholderMatches 0 anonymizedText)
            (Map.empty, Map.empty))"

text \<open>
  \<^verbatim>\<open>processedContent\<close>. The detection of a match is
  \<^verbatim>\<open>positionToDetection.get(matchStart) || replacementMap.get(placeholder)\<close>. A match is
  rendered as a span showing the original, whose click re-activates the occurrence, or as an
  \<^verbatim>\<open>InteractiveLabel\<close> carrying the detection (if any); the text between the matches is
  rendered as it is. ChatInterface passes no \<^verbatim>\<open>inactiveReplacements\<close>, which is then the
  empty set.
\<close>

datatype part =
  TextSpan string
| OriginalSpan string "nat option"
| InteractiveLabel string "PIIDetection option"

definition occurrenceDetection ::
  "string \<Rightarrow> PIIDetection list \<Rightarrow> nat \<Rightarrow> string \<Rightarrow> PIIDetection option" where
  "occurrenceDetection anonymizedText detections matchStart placeholder =
     (case positionToDetection anonymizedText detections matchStart of
        Some d \<Rightarrow> Some d
      | None \<Rightarrow> replacementMap detections placeholder)"

definition renderOccurrence ::
  "string \<Rightarrow> PIIDetection list \<Rightarrow> string set \<Rightarrow> nat set \<Rightarrow> nat \<Rightarrow> string \<Rightarrow> part" where
  "renderOccurrence anonymizedText detections inactiveReplacements inactiveOccs matchStart
       placeholder =
     (let detection = occurrenceDetection anonymizedText detections matchStart placeholder;
          detectionIndex = Option.bind detection idx;
          isInactive = (case detectionIndex of
                          Some k \<Rightarrow> k \<in> inactiveOccs
                        | None \<Rightarrow> placeholder \<in> inactiveReplacements)
      in case detection of
           Some d \<Rightarrow> if isInactive then OriginalSpan (original d) detectionIndex
                     else InteractiveLabel placeholder detection
         | None \<Rightarrow> InteractiveLabel placeholder detection)"

definition processedContent ::
  "string \<Rightarrow> PIIDetection list \<Rightarrow> string set \<Rightarrow> nat set \<Rightarrow> part list" where
  "processedContent anonymizedText detections inactiveReplacements inactiveOccs =
     (case fold (\<lambda>(matchStart, placeholder) (parts, lastIndex).
                   (parts
                    @ (if lastIndex < matchStart
                       then [TextSpan (take (matchStart - lastIndex)
                                         (drop lastIndex anonymizedText))]
                       else [])
                    @ [renderOccurrence anonymizedText detections inactiveReplacements
                         inactiveOccs matchStart placeholder],
                    matchStart + length placeholder))
             (placeholderMatches 0 anonymizedText) ([], 0) of
        (parts, lastIndex) \<Rightarrow>
          parts @ (if lastIndex < length anonymizedText
                   then [TextSpan (drop lastIndex anonymizedText)] else []))"

section \<open>Streaming Reconstructor\<close>

text \<open>
  The branch \<^verbatim>\<open>chunk.type === 'complete'\<close> of the callback in \<^verbatim>\<open>handleSubmit\<close>.
  \<open>anonymized_text\<close> is \<open>None\<close> when the chunk has none, \<open>detected_pii\<close> is
  \<^verbatim>\<open>chunk.reasoning?.detected_pii\<close>; the result is the content stored in the message. The sort
  of the host language is stable.
\<close>

definition sortByOriginalLength :: "PIIDetection list \<Rightarrow> PIIDetection list" where
  "sortByOriginalLength detections = sort_key (\<lambda>d. - int (length (original d))) detections"

definition constructFromDetections :: "string \<Rightarrow> PIIDetection list \<Rightarrow> string" where
  "constructFromDetections streamingContent detections =
     fold (\<lambda>detection finalContent.
             if original detection \<noteq> [] \<and> replacement detection \<noteq> []
             then regexReplaceAll canonicalize (original detection) (replacement detection) []
                    finalContent
             else finalContent)
       (sortByOriginalLength detections) streamingContent"

definition completeContent :: "string option \<Rightarrow> PIIDetection list option \<Rightarrow> string \<Rightarrow> string" where
  "completeContent anonymized_text detected_pii streamingContent =
     (let finalContent = (case anonymized_text of None \<Rightarrow> [] | Some t \<Rightarrow> t);
          constructed =
            (case detected_pii of
               None \<Rightarrow> finalContent
             | Some detections \<Rightarrow>
                 if finalContent = [] \<and> detections \<noteq> []
                 then constructFromDetections streamingContent detections
                 else finalContent)
      in if constructed \<noteq> [] then constructed else streamingContent)"

text \<open>
  The procedure in the words of the specification: every literal occurrence of the original,
  compared without regard to case, is replaced by the replacement, for each detection in the
  order of the sort.
\<close>

function replaceEvery :: "string \<Rightarrow> string \<Rightarrow> string \<Rightarrow> string" where
  "replaceEvery pat rep s =
     (if prefix (map canonicalize pat) (map canonicalize s) then
        (if pat = [] then (case s of [] \<Rightarrow> rep | c # cs \<Rightarrow> rep @ c # replaceEvery pat rep cs)
         else rep @ replaceEvery pat rep (drop (length pat) s))
      else (case s of [] \<Rightarrow> [] | c # cs \<Rightarrow> c # replaceEvery pat rep cs))"
  by pat_completeness auto
termination
proof (relation "measure (\<lambda>(pat, rep, s). length s)")
  show "wf (measure (\<lambda>(pat, rep, s). length s))"
    by simp
next
  fix pat rep s :: string
  assume m: "prefix (map canonicalize pat) (map canonicalize s)" and ne: "pat \<noteq> []"
  from m have "length pat \<le> length s"
    using prefix_length_le by fastforce
  with ne show "((pat, rep, drop (length pat) s), (pat, rep, s))
      \<in> measure (\<lambda>(pat, rep, s). length s)"
    by (cases pat) auto
qed auto

declare replaceEvery.simps [simp del]

definition reconstructSpec :: "string \<Rightarrow> PIIDetection list \<Rightarrow> string" where
  "reconstructSpec accumulated detections =
     fold (\<lambda>d t. replaceEvery (original d) (replacement d) t)
       (sortByOriginalLength detections) accumulated"

section \<open>Auxiliary notions for the statements\<close>

text \<open>
  Every detection of \<open>ds\<close> has confidence 1 or is a detection of \<open>dets\<close>, up to its
  occurrence index.
\<close>

definition manualOrOld :: "PIIDetection list \<Rightarrow> PIIDetection list \<Rightarrow> bool" where
  "manualOrOld dets ds =
     (\<forall>d\<in>set ds. confidence d = 1 \<or> (\<exists>d0\<in>set dets. d = d0\<lparr>idx := idx d\<rparr>))"

text \<open>
  The number, from 0, that match \<open>j\<close> has among the matches of the same placeholder, and
  the detections of a placeholder in array order.
\<close>

definition occurrenceNumber :: "(nat \<times> string) list \<Rightarrow> nat \<Rightarrow> string \<Rightarrow> nat" where
  "occurrenceNumber ms j placeholder = length (filter (\<lambda>m. snd m = placeholder) (take j ms))"

definition detectionsOf :: "PIIDetection list \<Rightarrow> string \<Rightarrow> PIIDetection list" where
  "detectionsOf detections placeholder = filter (\<lambda>d. replacement d = placeholder) detections"

text \<open>Two detections of one placeholder with a detection of another between them.\<close>

definition threeDetections :: "PIIDetection list" where
  "threeDetections =
     [\<lparr>dtype = ''name'', original = ''Ann'', replacement = ''[NAME_1]'',
       confidence = 9 / 10, explanation = None, idx = Some 0\<rparr>,
      \<lparr>dtype = ''email'', original = ''a@x.com'', replacement = ''[EMAIL_1]'',
       confidence = 9 / 10, explanation = None, idx = Some 1\<rparr>,
      \<lparr>dtype = ''name'', original = ''Ann'', replacement = ''[NAME_1]'',
       confidence = 8 / 10, explanation = None, idx = Some 2\<rparr>]"

text \<open>
  Detections for the Streaming Reconstructor: one with an empty replacement, and a list with
  two names (one inside the other, up to case) and a detection with an empty original.
\<close>

definition emptyReplacement :: PIIDetection where
  "emptyReplacement =
     \<lparr>dtype = ''name'', original = ''John'', replacement = [],
      confidence = 9 / 10, explanation = None, idx = Some 0\<rparr>"

definition streamDetections :: "PIIDetection list" where
  "streamDetections =
     [\<lparr>dtype = ''name'', original = ''John'', replacement = ''[NAME_1]'',
       confidence = 9 / 10, explanation = None, idx = Some 0\<rparr>,
      \<lparr>dtype = ''name'', original = ''john smith'', replacement = ''[NAME_2]'',
       confidence = 9 / 10, explanation = None, idx = Some 1\<rparr>,
      \<lparr>dtype = ''name'', original = [], replacement = ''[NAME_3]'',
       confidence = 9 / 10, explanation = None, idx = Some 2\<rparr>]"





text \<open>Scenario B of the specification: a number after both placeholders of Scenario A.\<close>

definition scenarioB_text :: string where
  "scenarioB_text = ''Contact [NAME_1] at [EMAIL], ssn 555-1234.''"

section \<open>Case folding on the bits of a code unit\<close>

text \<open>
  In both ranges of the folding table a lower-case letter and its upper-case partner differ in
  bit 5 (\<open>0x20\<close>) only.  The lower-case letters are the code units with bits 6 and 5
  set whose low five bits are 1 to 26 below \<open>0x80\<close>, and anything but 23 (\<open>0xF7\<close>) and
  31 (\<open>0xFF\<close>) from \<open>0xE0\<close> on.  The equation is proved from the table for all 256 code
  units and then serves to evaluate \<open>canonicalize\<close>.
\<close>

lemma canonicalize_latin1:
  "canonicalize (CHR 0xE9) = CHR 0xC9" "canonicalize (CHR 0xC9) = CHR 0xC9"
  "canonicalize CHR ''a'' = CHR ''A''" "canonicalize (CHR 0xF7) = CHR 0xF7"
  "canonicalize (CHR 0xDF) = CHR 0xDF" "canonicalize (CHR 0xFF) = CHR 0xFF"
  by (simp_all add: canonicalize_def lowerCaseLetters_def upperCaseLetters_def)

lemma canonicalize_bits [code]:
  "canonicalize (Char b0 b1 b2 b3 b4 b5 b6 b7) =
     (if b6 \<and> b5
         \<and> (if b7 then \<not> (b4 \<and> b2 \<and> b1 \<and> b0)
             else (b0 \<or> b1 \<or> b2 \<or> b3 \<or> b4) \<and> \<not> (b4 \<and> b3 \<and> (b2 \<or> b1 \<and> b0)))
      then Char b0 b1 b2 b3 b4 False b6 b7
      else Char b0 b1 b2 b3 b4 b5 b6 b7)"
  by (cases b0; cases b1; cases b2; cases b3; cases b4; cases b5; cases b6; cases b7)
     (simp_all add: canonicalize_def lowerCaseLetters_def upperCaseLetters_def)


section \<open>Export Reversal: the occurrence that is substituted\<close>

text \<open>
  C1 (Export Reversal). The claim has the occurrence counted among the detections of the same
  placeholder, so that a deactivated detection whose placeholder occurs once is always
  substituted back. The code compares the running count of matches with the global index
  \<^verbatim>\<open>i\<close>: in Scenario A, deactivating occurrence 1 (the only \<^verbatim>\<open>[EMAIL]\<close>) leaves the text as
  it was, while deactivating occurrence 0 gives the rendering of the scenario.
\<close>

theorem applyInactiveOccurrences_global_index:
  "applyInactiveOccurrences scenarioA_text scenarioA_detections {1} = scenarioA_text
   \<and> applyInactiveOccurrences scenarioA_text scenarioA_detections {0}
       = ''Contact John Smith at [EMAIL].''"
  by (simp add: applyInactiveOccurrences_def substituteOccurrence_def scenarioA_text_def
      scenarioA_detections_def)

section \<open>Occurrence Activation State: toggles and the threshold\<close>

lemma messageInactives_toggle:
  "messageInactives (handleToggleOccurrence m k a st) m' =
     (if m' = m then (if a then messageInactives st m - {k} else insert k (messageInactives st m))
      else messageInactives st m')"
  by (simp add: handleToggleOccurrence_def messageInactives_def Let_def)

lemma activate_fold:
  "messageInactives
     (fold (\<lambda>(i, d) s. if P i d then handleToggleOccurrence m (f i d) True s else s) xs st) m
   = messageInactives st m - {f i d | i d. (i, d) \<in> set xs \<and> P i d}"
proof (induction xs arbitrary: st)
  case Nil
  show ?case by simp
next
  case (Cons x xs)
  obtain i d where x: "x = (i, d)" by (cases x)
  show ?case
    unfolding x by (auto simp: Cons.IH messageInactives_toggle)
qed

lemma deactivate_fold:
  "messageInactives
     (fold (\<lambda>(i, d) s. if P i d then handleToggleOccurrence m (f i d) False s else s) xs st) m
   = messageInactives st m \<union> {f i d | i d. (i, d) \<in> set xs \<and> P i d}"
proof (induction xs arbitrary: st)
  case Nil
  show ?case by simp
next
  case (Cons x xs)
  obtain i d where x: "x = (i, d)" by (cases x)
  show ?case
    unfolding x by (auto simp: Cons.IH messageInactives_toggle)
qed

lemma slider_inactive_set:
  "messageInactives (handleSliderChange val dets X m st) m
   = (messageInactives st m - (occurrenceIndices dets \<inter> X))
     \<union> (if 0 < val then belowThreshold val dets else {})"
  unfolding handleSliderChange_def Let_def occurrenceIndices_def belowThreshold_def
  by (auto simp: activate_fold deactivate_fold)

lemma belowThreshold_subset: "belowThreshold val dets \<subseteq> occurrenceIndices dets"
  by (auto simp: belowThreshold_def occurrenceIndices_def)

lemma belowThreshold_nonpos:
  "\<forall>d\<in>set dets. 0 \<le> confidence d \<Longrightarrow> val \<le> 0 \<Longrightarrow> belowThreshold val dets = {}"
  apply (auto simp: belowThreshold_def filter_empty_conv in_set_enumerate_eq)
  by (smt (verit) mult_nonneg_nonneg nth_mem zero_le_numeral order.trans not_less)

text \<open>
  C4 (toggleEntity). The claim has every detection of the entity in the inactive-occurrence
  set after \<^verbatim>\<open>toggleEntity(original, false)\<close>, without error. \<^verbatim>\<open>handleToggleEntity\<close> never
  touches \<^verbatim>\<open>inactiveOccurrences\<close>: on a message with detections it throws on the undeclared
  \<^verbatim>\<open>setInactiveReplacements\<close>, here in Scenario A for the entity \<^verbatim>\<open>John Smith\<close>, whose
  occurrence 0 stays active. The sibling \<^verbatim>\<open>handleToggleAllOccurrences\<close> does record the
  occurrence indices.
\<close>

theorem handleToggleEntity_throws:
  "handleToggleEntity (Some scenarioA_detections) 1 ''John Smith'' False
       \<lparr>inactiveOccurrences = Map.empty, inactiveEntities = Map.empty\<rparr>
     = Inl (ReferenceError ''setInactiveReplacements'')
   \<and> 0 \<notin> messageInactives
          (inactiveOccurrences
             (stateAfter \<lparr>inactiveOccurrences = Map.empty, inactiveEntities = Map.empty\<rparr>
                (handleToggleEntity (Some scenarioA_detections) 1 ''John Smith'' False
                   \<lparr>inactiveOccurrences = Map.empty, inactiveEntities = Map.empty\<rparr>))) 1
   \<and> messageInactives
        (handleToggleAllOccurrences (Some scenarioA_detections) 1 ''[NAME_1]'' False Map.empty) 1
      = {0}"
  by (simp add: handleToggleEntity_def stateAfter_def messageInactives_def
      handleToggleAllOccurrences_def scenarioA_detections_def occurrenceIndex_def)

text \<open>
  C5 (applyConfidenceThreshold), as the claim states it: for every prior inactive set the new
  one is exactly the set of the occurrence indices below the threshold. The reset of
  \<^verbatim>\<open>handleSliderChange\<close> re-activates the indices of the listed detections only; a prior
  member that is the index of no detection (one left by an earlier conversation under the
  same message index, which clearing the messages does not remove) stays.
\<close>

theorem handleSliderChange_stale_index:
  "messageInactives (handleSliderChange 50 scenarioA_detections {7} 0 [0 \<mapsto> {7}]) 0
     \<noteq> belowThreshold 50 scenarioA_detections"
  by (simp add: handleSliderChange_def scenarioA_detections_def belowThreshold_def
      occurrenceIndex_def handleToggleOccurrence_def messageInactives_def)

text \<open>
  C5, amended: with confidences in the range of the data model, the new inactive set is the
  set of the occurrence indices of the detections with \<^verbatim>\<open>confidence * 100 < T\<close>, together
  with the prior members that are the occurrence index of no detection of the list; and
  applying a threshold \<open>T1\<close> and then \<open>T2\<close> leaves the same set as applying \<open>T2\<close> alone.
\<close>

theorem handleSliderChange_reset_then_apply:
  assumes "\<forall>d\<in>set dets. 0 \<le> confidence d"
  shows "messageInactives (handleSliderChange T dets (messageInactives st m) m st) m
           = (messageInactives st m - occurrenceIndices dets) \<union> belowThreshold T dets
         \<and> (let st1 = handleSliderChange T1 dets (messageInactives st m) m st
            in messageInactives (handleSliderChange T2 dets (messageInactives st1 m) m st1) m
               = messageInactives (handleSliderChange T2 dets (messageInactives st m) m st) m)"
proof -
  have s: "belowThreshold T' dets \<subseteq> occurrenceIndices dets" for T'
    by (rule belowThreshold_subset)
  have z: "belowThreshold T dets = {}" if "T \<le> 0"
    using assms that by (rule belowThreshold_nonpos)
  have one: "messageInactives (handleSliderChange T dets (messageInactives st m) m st) m
           = (messageInactives st m - occurrenceIndices dets) \<union> belowThreshold T dets"
    using z by (auto simp: slider_inactive_set)
  have two: "messageInactives
      (handleSliderChange T2 dets
         (messageInactives (handleSliderChange T1 dets (messageInactives st m) m st) m) m
         (handleSliderChange T1 dets (messageInactives st m) m st)) m
     = messageInactives (handleSliderChange T2 dets (messageInactives st m) m st) m"
    using s[of T1] s[of T2] by (auto simp: slider_inactive_set)
  from one two show ?thesis
    by (simp add: Let_def)
qed

theorem handleSliderChange_reset_then_apply_witness:
  "list_all (\<lambda>d. 0 \<le> confidence d) scenarioA_detections
   \<and> messageInactives
        (handleSliderChange 97 scenarioA_detections (messageInactives [0 \<mapsto> {1, 7}] 0) 0
           [0 \<mapsto> {1, 7}]) 0
      = {0, 7}"
proof -
  have h: "\<forall>d\<in>set scenarioA_detections. 0 \<le> confidence d"
    by (simp add: scenarioA_detections_def)
  have o: "occurrenceIndices scenarioA_detections = {0, 1}"
    by (auto simp: occurrenceIndices_def scenarioA_detections_def occurrenceIndex_def)
  have b: "belowThreshold 97 scenarioA_detections = {0}"
    by (simp add: belowThreshold_def scenarioA_detections_def occurrenceIndex_def)
  have m: "messageInactives [0 \<mapsto> {1, 7}] 0 = {1, 7}"
    by (simp add: messageInactives_def)
  from handleSliderChange_reset_then_apply[OF h, of 97 "[0 \<mapsto> {1, 7}]" 0] h
  show ?thesis
    unfolding o b m by (auto simp: list_all_iff)
qed

section \<open>Manual Tagging and Replace-All: what is inserted\<close>

text \<open>
  C2 (Replace-All is idempotent). Replace-All on \<^verbatim>\<open>Acme and Acme\<close> gives two detections for
  the two positions. Invoked again with the same selection and type on that result, every
  position is covered, and yet a third detection is inserted: the test for an existing
  detection compares the position with the \<^emph>\<open>first\<close> offset of the placeholder, so only the
  first position is ever found covered.
\<close>

theorem handleReplaceAll_duplicates:
  "handleReplaceAll ''Acme and Acme'' [] ''Acme'' ''org''
     = (''[ORG_1] and [ORG_1]'',
        [manualDetection ''org'' ''Acme'' ''[ORG_1]'' 0,
         manualDetection ''org'' ''Acme'' ''[ORG_1]'' 1])
   \<and> handleReplaceAll ''[ORG_1] and [ORG_1]''
        [manualDetection ''org'' ''Acme'' ''[ORG_1]'' 0,
         manualDetection ''org'' ''Acme'' ''[ORG_1]'' 1] ''Acme'' ''org''
     = (''[ORG_1] and [ORG_1]'',
        [manualDetection ''org'' ''Acme'' ''[ORG_1]'' 0,
         manualDetection ''org'' ''Acme'' ''[ORG_1]'' 1,
         manualDetection ''org'' ''Acme'' ''[ORG_1]'' 2])"
  by code_simp

text \<open>
  C3 (Manual Tagging, selection not found). The claim has neither the text nor the detections
  change when the selection does not occur in the text. \<^verbatim>\<open>Jane\<close> does not occur in the
  text of Scenario A; tagging it as a name leaves the text, and yet inserts a record for
  \<^verbatim>\<open>[NAME_2]\<close>, which occurs nowhere in the text, at index 0 and renumbers the two
  detections: the \<^verbatim>\<open>position\<close> of \<^verbatim>\<open>-1\<close> is not handled, where the loop does guard
  \<^verbatim>\<open>detectionPos !== -1\<close>. Replace-All on the same input changes nothing.
\<close>

theorem handleReplace_not_found_inserts:
  "indexOf scenarioA_text ''Jane'' = None
   \<and> handleReplace scenarioA_text scenarioA_detections ''Jane'' ''name''
       = (scenarioA_text,
          [manualDetection ''name'' ''Jane'' ''[NAME_2]'' 0,
           (scenarioA_detections ! 0)\<lparr>idx := Some 1\<rparr>,
           (scenarioA_detections ! 1)\<lparr>idx := Some 2\<rparr>])
   \<and> indexOf scenarioA_text ''[NAME_2]'' = None
   \<and> handleReplaceAll scenarioA_text scenarioA_detections ''Jane'' ''name''
       = (scenarioA_text, scenarioA_detections)"
  by code_simp

lemma renumber_mem:
  "d \<in> set (renumber n ds) \<Longrightarrow> \<exists>d0\<in>set ds. d = d0\<lparr>idx := idx d\<rparr>"
proof (induction ds arbitrary: n)
  case Nil
  then show ?case by simp
next
  case (Cons a ds)
  then show ?case
    by (auto split: if_splits)
qed

lemma spliceDetection_mem:
  assumes "d \<in> set (spliceDetection E S P k ds)"
  shows "d = manualDetection E S P k \<or> (\<exists>d0\<in>set ds. d = d0\<lparr>idx := idx d\<rparr>)"
proof -
  from assms consider "d \<in> set (take k ds)" | "d = manualDetection E S P k"
    | "d \<in> set (renumber (Suc k) (drop k ds))"
    by (auto simp: spliceDetection_def)
  then show ?thesis
  proof cases
    case 1
    then have "d \<in> set ds" by (rule in_set_takeD)
    then have "\<exists>d0\<in>set ds. d = d0\<lparr>idx := idx d\<rparr>" by (intro bexI[of _ d]) auto
    then show ?thesis ..
  next
    case 2
    then show ?thesis ..
  next
    case 3
    from renumber_mem[OF 3] obtain d0 where "d0 \<in> set (drop k ds)" "d = d0\<lparr>idx := idx d\<rparr>"
      by blast
    then show ?thesis
      using in_set_dropD by fastforce
  qed
qed

lemma manualOrOld_refl: "manualOrOld dets dets"
  unfolding manualOrOld_def
proof
  fix d assume "d \<in> set dets"
  then have "\<exists>d0\<in>set dets. d = d0\<lparr>idx := idx d\<rparr>" by (intro bexI[of _ d]) auto
  then show "confidence d = 1 \<or> (\<exists>d0\<in>set dets. d = d0\<lparr>idx := idx d\<rparr>)" ..
qed

lemma manualOrOld_splice:
  assumes "manualOrOld dets ds"
  shows "manualOrOld dets (spliceDetection E S P k ds)"
  unfolding manualOrOld_def
proof
  fix d assume "d \<in> set (spliceDetection E S P k ds)"
  from spliceDetection_mem[OF this]
  show "confidence d = 1 \<or> (\<exists>d0\<in>set dets. d = d0\<lparr>idx := idx d\<rparr>)"
  proof
    assume "d = manualDetection E S P k"
    then show ?thesis by (simp add: manualDetection_def)
  next
    assume "\<exists>d1\<in>set ds. d = d1\<lparr>idx := idx d\<rparr>"
    then obtain d1 where d1: "d1 \<in> set ds" "d = d1\<lparr>idx := idx d\<rparr>" by blast
    from assms d1(1) have "confidence d1 = 1 \<or> (\<exists>d0\<in>set dets. d1 = d0\<lparr>idx := idx d1\<rparr>)"
      by (simp add: manualOrOld_def)
    then show ?thesis
    proof
      assume "confidence d1 = 1"
      with d1(2) have "confidence d = 1" by (metis PIIDetection.select_convs(4) PIIDetection.surjective PIIDetection.update_convs(6))
      then show ?thesis ..
    next
      assume "\<exists>d0\<in>set dets. d1 = d0\<lparr>idx := idx d1\<rparr>"
      then obtain d0 where "d0 \<in> set dets" "d1 = d0\<lparr>idx := idx d1\<rparr>" by blast
      with d1(2) have "d0 \<in> set dets \<and> d = d0\<lparr>idx := idx d\<rparr>"
        by (metis PIIDetection.update_convs(6) PIIDetection.surjective)
      then show ?thesis by blast
    qed
  qed
qed

lemma manualOrOld_fold:
  "manualOrOld dets ds \<Longrightarrow> manualOrOld dets (fold (tagPosition newText E S P) ps ds)"
proof (induction ps arbitrary: ds)
  case Nil
  then show ?case by simp
next
  case (Cons p ps)
  have "manualOrOld dets (tagPosition newText E S P p ds)"
    using Cons.prems by (simp add: tagPosition_def manualOrOld_splice)
  from Cons.IH[OF this] show ?case by simp
qed

lemma enumerate_occurrence:
  "j < length ds \<Longrightarrow> (j, ds ! j) \<in> set (List.enumerate 0 ds)"
  by (simp add: in_set_enumerate_eq)

text \<open>
  C10 (manual detections have confidence 1). Every detection in the result of Manual Tagging
  or Replace-All has confidence 1 or is one of the given detections (its occurrence index
  apart); and a detection of confidence 1, in a list whose occurrence indices are distinct,
  is not in the inactive set after the threshold \<open>T \<le> 100\<close> is applied.
\<close>

theorem manual_detections_full_confidence:
  "(\<forall>d\<in>set (snd (handleReplace text dets S E)).
       confidence d = 1 \<or> (\<exists>d0\<in>set dets. d = d0\<lparr>idx := idx d\<rparr>))
   \<and> (\<forall>d\<in>set (snd (handleReplaceAll text dets S E)).
       confidence d = 1 \<or> (\<exists>d0\<in>set dets. d = d0\<lparr>idx := idx d\<rparr>))
   \<and> (j < length ds \<and> confidence (ds ! j) = 1 \<and> T \<le> 100
       \<and> distinct (map (\<lambda>(i, d). occurrenceIndex d i) (List.enumerate 0 ds))
      \<longrightarrow> occurrenceIndex (ds ! j) j
            \<notin> messageInactives (handleSliderChange T ds (messageInactives st m) m st) m)"
proof (intro conjI impI)
  have "manualOrOld dets (snd (handleReplace text dets S E))"
    by (simp add: handleReplace_def Let_def manualOrOld_refl manualOrOld_splice)
  then show "\<forall>d\<in>set (snd (handleReplace text dets S E)).
       confidence d = 1 \<or> (\<exists>d0\<in>set dets. d = d0\<lparr>idx := idx d\<rparr>)"
    by (simp add: manualOrOld_def)
next
  have "manualOrOld dets (snd (handleReplaceAll text dets S E))"
    by (simp add: handleReplaceAll_def Let_def manualOrOld_refl manualOrOld_fold)
  then show "\<forall>d\<in>set (snd (handleReplaceAll text dets S E)).
       confidence d = 1 \<or> (\<exists>d0\<in>set dets. d = d0\<lparr>idx := idx d\<rparr>)"
    by (simp add: manualOrOld_def)
next
  assume a: "j < length ds \<and> confidence (ds ! j) = 1 \<and> T \<le> 100
       \<and> distinct (map (\<lambda>(i, d). occurrenceIndex d i) (List.enumerate 0 ds))"
  let ?f = "\<lambda>(i, d). occurrenceIndex d i"
  from a have mem: "(j, ds ! j) \<in> set (List.enumerate 0 ds)"
    by (simp add: enumerate_occurrence)
  then have inI: "occurrenceIndex (ds ! j) j \<in> occurrenceIndices ds"
    unfolding occurrenceIndices_def by force
  have "occurrenceIndex (ds ! j) j \<notin> belowThreshold T ds"
  proof
    assume "occurrenceIndex (ds ! j) j \<in> belowThreshold T ds"
    then obtain i d where id: "(i, d) \<in> set (List.enumerate 0 ds)" "confidence d * 100 < T"
      "occurrenceIndex d i = occurrenceIndex (ds ! j) j"
      by (auto simp: belowThreshold_def)
    from a have "inj_on ?f (set (List.enumerate 0 ds))"
      by (simp add: distinct_map)
    from inj_onD[OF this _ id(1) mem] id(3) have "(i, d) = (j, ds ! j)"
      by simp
    with id(2) a show False by simp
  qed
  with inI show "occurrenceIndex (ds ! j) j
            \<notin> messageInactives (handleSliderChange T ds (messageInactives st m) m st) m"
    by (simp add: slider_inactive_set)
qed

theorem manual_detections_full_confidence_witness:
  "snd (handleReplace scenarioB_text scenarioA_detections ''555-1234'' ''ssn'')
     = scenarioA_detections @ [manualDetection ''ssn'' ''555-1234'' ''[SSN_1]'' 2]
   \<and> confidence (manualDetection ''ssn'' ''555-1234'' ''[SSN_1]'' 2) = 1
   \<and> 2 \<notin> messageInactives
          (handleSliderChange 100
             (scenarioA_detections @ [manualDetection ''ssn'' ''555-1234'' ''[SSN_1]'' 2])
             (messageInactives [0 \<mapsto> {2}] 0) 0 [0 \<mapsto> {2}]) 0"
proof -
  let ?ds = "scenarioA_detections @ [manualDetection ''ssn'' ''555-1234'' ''[SSN_1]'' 2]"
  have r: "snd (handleReplace scenarioB_text scenarioA_detections ''555-1234'' ''ssn'') = ?ds"
    by code_simp
  have h: "2 < length ?ds \<and> confidence (?ds ! 2) = 1 \<and> (100::rat) \<le> 100
       \<and> distinct (map (\<lambda>(i, d). occurrenceIndex d i) (List.enumerate 0 ?ds))"
    by (simp add: scenarioA_detections_def manualDetection_def occurrenceIndex_def)
  have o: "occurrenceIndex (?ds ! 2) 2 = 2"
    by (simp add: scenarioA_detections_def manualDetection_def occurrenceIndex_def)
  from manual_detections_full_confidence
         [of scenarioB_text scenarioA_detections "''555-1234''" "''ssn''" 2 ?ds 100
             "[0 \<mapsto> {2}]" 0]
  have "occurrenceIndex (?ds ! 2) 2
      \<notin> messageInactives (handleSliderChange 100 ?ds (messageInactives [0 \<mapsto> {2}] 0) 0
                            [0 \<mapsto> {2}]) 0"
    using h by blast
  with r o show ?thesis
    by (simp add: manualDetection_def)
qed

section \<open>Position Resolver: which detection an occurrence gets\<close>

lemma matchPlaceholder_pos: "matchPlaceholder s = Some len \<Longrightarrow> 0 < len"
  by (auto simp: matchPlaceholder_def Let_def split: list.splits if_splits)

lemma placeholderMatches_lower:
  "(p, P) \<in> set (placeholderMatches off s) \<Longrightarrow> off \<le> p"
proof (induction off s rule: placeholderMatches.induct)
  case (1 off s)
  show ?case
  proof (cases "s = []")
    case True
    with "1.prems" show ?thesis by (simp add: placeholderMatches.simps)
  next
    case False
    show ?thesis
    proof (cases "matchPlaceholder s")
      case None
      with False "1.prems" have "(p, P) \<in> set (placeholderMatches (Suc off) (tl s))"
        by (simp add: placeholderMatches.simps[of off s])
      from "1.IH"(1)[OF False None this] show ?thesis by simp
    next
      case (Some len)
      with False "1.prems"
      have "(p, P) = (off, take len s) \<or> (p, P) \<in> set (placeholderMatches (off + len) (drop len s))"
        by (simp add: placeholderMatches.simps[of off s])
      then show ?thesis
      proof
        assume "(p, P) = (off, take len s)"
        then show ?thesis by simp
      next
        assume "(p, P) \<in> set (placeholderMatches (off + len) (drop len s))"
        from "1.IH"(2)[OF False Some this] show ?thesis by simp
      qed
    qed
  qed
qed

lemma placeholderMatches_distinct: "distinct (map fst (placeholderMatches off s))"
proof (induction off s rule: placeholderMatches.induct)
  case (1 off s)
  show ?case
  proof (cases "s = []")
    case True
    then show ?thesis by (simp add: placeholderMatches.simps)
  next
    case False
    show ?thesis
    proof (cases "matchPlaceholder s")
      case None
      with False "1.IH"(1) show ?thesis
        by (simp add: placeholderMatches.simps[of off s])
    next
      case (Some len)
      have "off \<notin> fst ` set (placeholderMatches (off + len) (drop len s))"
      proof
        assume "off \<in> fst ` set (placeholderMatches (off + len) (drop len s))"
        then obtain P where "(off, P) \<in> set (placeholderMatches (off + len) (drop len s))"
          by auto
        from placeholderMatches_lower[OF this] matchPlaceholder_pos[OF Some] show False
          by simp
      qed
      with False Some "1.IH"(2) show ?thesis
        by (simp add: placeholderMatches.simps[of off s])
    qed
  qed
qed

lemma bind_fold_other:
  "p \<notin> fst ` set ms \<Longrightarrow> snd (fold (bindOccurrence dets) ms (c, m)) p = m p"
proof (induction ms arbitrary: c m)
  case Nil
  show ?case by simp
next
  case (Cons x xs)
  obtain q Q where x: "x = (q, Q)" by (cases x)
  obtain c' m' where s: "bindOccurrence dets (q, Q) (c, m) = (c', m')"
    by (cases "bindOccurrence dets (q, Q) (c, m)")
  from Cons.prems x have "p \<noteq> q" and rest: "p \<notin> fst ` set xs"
    by auto
  with s have "m' p = m p"
    by (auto simp: bindOccurrence_def Let_def split: if_splits)
  with Cons.IH[OF rest, of c' m'] x s show ?case
    by simp
qed

lemma bind_fold_nth:
  assumes "distinct (map fst ms)" and "j < length ms" and "ms ! j = (p, P)"
  shows "snd (fold (bindOccurrence dets) ms (c, m)) p
         = (let k = (case c P of None \<Rightarrow> 0 | Some n \<Rightarrow> n) + occurrenceNumber ms j P
            in if k < length (detectionsOf dets P) then Some (detectionsOf dets P ! k) else m p)"
  using assms
proof (induction ms arbitrary: c m j)
  case Nil
  then show ?case by simp
next
  case (Cons x xs)
  obtain q Q where x: "x = (q, Q)" by (cases x)
  define cnt where "cnt = (case c Q of None \<Rightarrow> 0 | Some n \<Rightarrow> n)"
  define c' where "c' = c(Q \<mapsto> cnt + 1)"
  define m' where "m' = (if cnt < length (detectionsOf dets Q)
                         then m(q \<mapsto> detectionsOf dets Q ! cnt) else m)"
  have s: "bindOccurrence dets (q, Q) (c, m) = (c', m')"
    by (simp add: bindOccurrence_def Let_def detectionsOf_def c'_def m'_def cnt_def)
  have f: "fold (bindOccurrence dets) (x # xs) (c, m) = fold (bindOccurrence dets) xs (c', m')"
    by (simp add: x s)
  show ?case
  proof (cases j)
    case 0
    with Cons.prems x have pq: "p = q" "P = Q" and nin: "p \<notin> fst ` set xs"
      by auto
    have "snd (fold (bindOccurrence dets) xs (c', m')) p = m' p"
      by (rule bind_fold_other[OF nin])
    with pq 0 show ?thesis
      unfolding f by (simp add: occurrenceNumber_def Let_def m'_def cnt_def)
  next
    case (Suc j')
    from Cons.prems Suc have d: "distinct (map fst xs)" and j': "j' < length xs"
      and n: "xs ! j' = (p, P)"
      by auto
    from n j' have "p \<in> fst ` set xs"
      by (metis fst_conv image_eqI nth_mem)
    with Cons.prems(1) x have pq: "p \<noteq> q"
      by auto
    have k: "(case c' P of None \<Rightarrow> 0 | Some n \<Rightarrow> n) + occurrenceNumber xs j' P
           = (case c P of None \<Rightarrow> 0 | Some n \<Rightarrow> n) + occurrenceNumber (x # xs) j P"
      using Suc x by (simp add: occurrenceNumber_def c'_def cnt_def)
    from pq have mp: "m' p = m p"
      by (simp add: m'_def)
    have "snd (fold (bindOccurrence dets) xs (c', m')) p
         = (let k = (case c' P of None \<Rightarrow> 0 | Some n \<Rightarrow> n) + occurrenceNumber xs j' P
            in if k < length (detectionsOf dets P) then Some (detectionsOf dets P ! k) else m' p)"
      by (rule Cons.IH[OF d j' n])
    then show ?thesis
      unfolding f k mp .
  qed
qed

lemma positionToDetection_nth:
  assumes "j < length (placeholderMatches 0 text)"
      and "placeholderMatches 0 text ! j = (p, P)"
  shows "positionToDetection text dets p
         = (let k = occurrenceNumber (placeholderMatches 0 text) j P
            in if k < length (detectionsOf dets P) then Some (detectionsOf dets P ! k) else None)"
  unfolding positionToDetection_def
  using bind_fold_nth[OF placeholderMatches_distinct assms, of dets Map.empty Map.empty]
  by (simp add: Let_def)

lemma replacementMap_fold:
  "fold (\<lambda>detection m.
           if m (replacement detection) = None then m(replacement detection \<mapsto> detection) else m)
     dets m P
   = (case m P of Some d \<Rightarrow> Some d | None \<Rightarrow> find (\<lambda>d. replacement d = P) dets)"
  by (induction dets arbitrary: m) (auto split: option.splits)

lemma replacementMap_find: "replacementMap dets P = find (\<lambda>d. replacement d = P) dets"
  by (simp add: replacementMap_def replacementMap_fold)

text \<open>
  C6 (Position Resolver binding). Scanning the text for placeholder tokens, the occurrence
  number \<open>k\<close> (from 0) of the placeholder \<open>P\<close> is mapped to detection number \<open>k\<close>, in array
  order, among the detections whose replacement is \<open>P\<close>; the occurrence index \<^verbatim>\<open>i\<close> plays no
  part.
\<close>

theorem positionToDetection_binds_kth:
  assumes "j < length (placeholderMatches 0 text)"
      and "placeholderMatches 0 text ! j = (p, P)"
      and "k = occurrenceNumber (placeholderMatches 0 text) j P"
      and "k < length (detectionsOf dets P)"
  shows "positionToDetection text dets p = Some (detectionsOf dets P ! k)"
  using positionToDetection_nth[OF assms(1,2), of dets] assms(3,4)
  by (simp add: Let_def)

theorem positionToDetection_binds_kth_witness:
  "placeholderMatches 0 ''[NAME_1] [EMAIL_1] [NAME_1]'' ! 2 = (19, ''[NAME_1]'')
   \<and> occurrenceNumber (placeholderMatches 0 ''[NAME_1] [EMAIL_1] [NAME_1]'') 2 ''[NAME_1]'' = 1
   \<and> positionToDetection ''[NAME_1] [EMAIL_1] [NAME_1]'' threeDetections 19
       = Some (threeDetections ! 2)
   \<and> idx (threeDetections ! 1) = Some 1"
proof -
  let ?t = "''[NAME_1] [EMAIL_1] [NAME_1]''"
  have ms: "placeholderMatches 0 ?t = [(0, ''[NAME_1]''), (9, ''[EMAIL_1]''), (19, ''[NAME_1]'')]"
    by code_simp
  have a: "2 < length (placeholderMatches 0 ?t)"
    by (simp add: ms)
  have b: "placeholderMatches 0 ?t ! 2 = (19, ''[NAME_1]'')"
    by (simp add: ms)
  have c: "1 = occurrenceNumber (placeholderMatches 0 ?t) 2 ''[NAME_1]''"
    by (simp add: ms occurrenceNumber_def)
  have d: "detectionsOf threeDetections ''[NAME_1]'' = [threeDetections ! 0, threeDetections ! 2]"
    by (simp add: detectionsOf_def threeDetections_def)
  have e: "1 < length (detectionsOf threeDetections ''[NAME_1]'')"
    by (simp add: d)
  from positionToDetection_binds_kth[OF a b c e] b c d show ?thesis
    by (simp add: threeDetections_def)
qed

text \<open>
  C7 (unresolved occurrences), as the claim states it: an occurrence of \<open>P\<close> beyond the
  detections of \<open>P\<close> is bound to no detection. With one detection of \<^verbatim>\<open>[NAME_1]\<close> and two
  occurrences, the second occurrence gets the first detection at rendering, and shows its
  original when occurrence 0 is inactive.
\<close>

theorem excess_occurrence_bound_to_first:
  "placeholderMatches 0 ''[NAME_1] and [NAME_1]'' = [(0, ''[NAME_1]''), (13, ''[NAME_1]'')]
   \<and> detectionsOf [scenarioA_detections ! 0] ''[NAME_1]'' = [scenarioA_detections ! 0]
   \<and> occurrenceDetection ''[NAME_1] and [NAME_1]'' [scenarioA_detections ! 0] 13 ''[NAME_1]''
       = Some (scenarioA_detections ! 0)
   \<and> processedContent ''[NAME_1] and [NAME_1]'' [scenarioA_detections ! 0] {} {0}
       = [OriginalSpan ''John Smith'' (Some 0), TextSpan '' and '',
          OriginalSpan ''John Smith'' (Some 0)]"
  by code_simp

text \<open>
  C7, amended: an occurrence of \<open>P\<close> beyond the detections of \<open>P\<close> has no entry in the map
  of the Position Resolver; at rendering it is given the first detection in array order whose
  replacement is \<open>P\<close>, and no detection only when there is none.
\<close>

theorem excess_occurrence_falls_back:
  assumes "j < length (placeholderMatches 0 text)"
      and "placeholderMatches 0 text ! j = (p, P)"
      and "length (detectionsOf dets P) \<le> occurrenceNumber (placeholderMatches 0 text) j P"
  shows "positionToDetection text dets p = None
         \<and> occurrenceDetection text dets p P = find (\<lambda>d. replacement d = P) dets"
proof -
  from positionToDetection_nth[OF assms(1,2), of dets] assms(3)
  have n: "positionToDetection text dets p = None"
    by (simp add: Let_def)
  then show ?thesis
    by (simp add: occurrenceDetection_def replacementMap_find)
qed

theorem excess_occurrence_falls_back_witness:
  "placeholderMatches 0 ''[NAME_1] and [NAME_1]'' ! 1 = (13, ''[NAME_1]'')
   \<and> length (detectionsOf [scenarioA_detections ! 0] ''[NAME_1]'') = 1
   \<and> occurrenceNumber (placeholderMatches 0 ''[NAME_1] and [NAME_1]'') 1 ''[NAME_1]'' = 1
   \<and> positionToDetection ''[NAME_1] and [NAME_1]'' [scenarioA_detections ! 0] 13 = None
   \<and> occurrenceDetection ''[NAME_1] and [NAME_1]'' [scenarioA_detections ! 0] 13 ''[NAME_1]''
       = Some (scenarioA_detections ! 0)"
proof -
  let ?t = "''[NAME_1] and [NAME_1]''"
  have ms: "placeholderMatches 0 ?t = [(0, ''[NAME_1]''), (13, ''[NAME_1]'')]"
    by code_simp
  have a: "1 < length (placeholderMatches 0 ?t)"
    by (simp add: ms)
  have b: "placeholderMatches 0 ?t ! 1 = (13, ''[NAME_1]'')"
    by (simp add: ms)
  have l: "length (detectionsOf [scenarioA_detections ! 0] ''[NAME_1]'') = 1"
    by (simp add: detectionsOf_def scenarioA_detections_def)
  have o: "occurrenceNumber (placeholderMatches 0 ?t) 1 ''[NAME_1]'' = 1"
    by (simp add: ms occurrenceNumber_def)
  have c: "length (detectionsOf [scenarioA_detections ! 0] ''[NAME_1]'')
           \<le> occurrenceNumber (placeholderMatches 0 ?t) 1 ''[NAME_1]''"
    unfolding l o by simp
  have f: "find (\<lambda>d. replacement d = ''[NAME_1]'') [scenarioA_detections ! 0]
           = Some (scenarioA_detections ! 0)"
    by (simp add: scenarioA_detections_def)
  from excess_occurrence_falls_back[OF a b c] b l o f show ?thesis
    by simp
qed

section \<open>Streaming Reconstructor: the constructed text\<close>

lemma getSubstitution_no_dollar:
  "CHR ''$'' \<notin> set rep \<Longrightarrow> getSubstitution matched preceding after rep = rep"
  by (induction matched preceding after rep rule: getSubstitution.induct) auto

lemma regexReplaceAll_replaceEvery:
  "CHR ''$'' \<notin> set rep
   \<Longrightarrow> regexReplaceAll canonicalize pat rep preceding s = replaceEvery pat rep s"
proof (induction pat rep s arbitrary: preceding rule: replaceEvery.induct)
  case (1 pat rep s)
  have l: "regexReplaceAll canonicalize pat rep preceding s =
     (if prefix (map canonicalize pat) (map canonicalize s) then
        (if pat = [] then
           (case s of
              [] \<Rightarrow> getSubstitution [] preceding [] rep
            | c # cs \<Rightarrow>
                getSubstitution [] preceding s rep
                @ c # regexReplaceAll canonicalize pat rep (preceding @ [c]) cs)
         else
           getSubstitution (take (length pat) s) preceding (drop (length pat) s) rep
           @ regexReplaceAll canonicalize pat rep (preceding @ take (length pat) s)
               (drop (length pat) s))
      else
        (case s of
           [] \<Rightarrow> []
         | c # cs \<Rightarrow> c # regexReplaceAll canonicalize pat rep (preceding @ [c]) cs))"
    by (rule regexReplaceAll.simps)
  have r: "replaceEvery pat rep s =
     (if prefix (map canonicalize pat) (map canonicalize s) then
        (if pat = [] then (case s of [] \<Rightarrow> rep | c # cs \<Rightarrow> rep @ c # replaceEvery pat rep cs)
         else rep @ replaceEvery pat rep (drop (length pat) s))
      else (case s of [] \<Rightarrow> [] | c # cs \<Rightarrow> c # replaceEvery pat rep cs))"
    by (rule replaceEvery.simps)
  note g = getSubstitution_no_dollar[OF "1.prems"]
  show ?case
  proof (cases "prefix (map canonicalize pat) (map canonicalize s)")
    case True
    show ?thesis
    proof (cases "pat = []")
      case e: True
      show ?thesis
      proof (cases s)
        case Nil
        show ?thesis
          unfolding l r using True e Nil by (simp add: g)
      next
        case (Cons c cs)
        from "1.IH"(1)[OF True e Cons "1.prems"]
        have "regexReplaceAll canonicalize pat rep (preceding @ [c]) cs = replaceEvery pat rep cs" .
        then show ?thesis
          unfolding l r using True e Cons by (simp add: g)
      qed
    next
      case ne: False
      from "1.IH"(2)[OF True ne "1.prems"]
      have "regexReplaceAll canonicalize pat rep (preceding @ take (length pat) s)
              (drop (length pat) s) = replaceEvery pat rep (drop (length pat) s)" .
      then show ?thesis
        unfolding l r using True ne by (simp add: g)
    qed
  next
    case False
    show ?thesis
    proof (cases s)
      case Nil
      show ?thesis
        unfolding l r using False Nil by simp
    next
      case (Cons c cs)
      from "1.IH"(3)[OF False Cons "1.prems"]
      have "regexReplaceAll canonicalize pat rep (preceding @ [c]) cs = replaceEvery pat rep cs" .
      then show ?thesis
        unfolding l r using False Cons by simp
    qed
  qed
qed

lemma fold_guard_filter:
  "fold (\<lambda>x a. if P x then f x a else a) xs a = fold f (filter P xs) a"
  by (induction xs arbitrary: a) auto

lemma replaceEvery_Nil: "pat \<noteq> [] \<Longrightarrow> replaceEvery pat rep [] = []"
  by (simp add: replaceEvery.simps[of pat rep "[]"])

lemma replaceEvery_nonempty: "s \<noteq> [] \<Longrightarrow> rep \<noteq> [] \<Longrightarrow> replaceEvery pat rep s \<noteq> []"
  by (subst replaceEvery.simps) (auto split: list.splits)

lemma fold_replaceEvery_empty_iff:
  assumes "\<forall>d\<in>set ds. original d \<noteq> [] \<and> replacement d \<noteq> []"
  shows "(fold (\<lambda>d t. replaceEvery (original d) (replacement d) t) ds s = []) = (s = [])"
  using assms
proof (induction ds arbitrary: s)
  case Nil
  show ?case by simp
next
  case (Cons d ds)
  then have "(replaceEvery (original d) (replacement d) s = []) = (s = [])"
    using replaceEvery_Nil replaceEvery_nonempty by (cases "s = []") auto
  with Cons show ?case
    by simp
qed

lemma fold_cong_set:
  "(\<And>x a. x \<in> set xs \<Longrightarrow> f x a = g x a) \<Longrightarrow> fold f xs a = fold g xs a"
  by (induction xs arbitrary: a) auto

lemma constructFromDetections_spec:
  assumes "\<forall>d\<in>set detections. CHR ''$'' \<notin> set (replacement d)"
  shows "constructFromDetections streamingContent detections
         = reconstructSpec streamingContent
             (filter (\<lambda>d. original d \<noteq> [] \<and> replacement d \<noteq> []) detections)"
proof -
  let ?P = "\<lambda>d. original d \<noteq> [] \<and> replacement d \<noteq> []"
  have "constructFromDetections streamingContent detections
      = fold (\<lambda>d t. regexReplaceAll canonicalize (original d) (replacement d) [] t)
          (filter ?P (sortByOriginalLength detections)) streamingContent"
    unfolding constructFromDetections_def by (rule fold_guard_filter)
  also have "\<dots> = fold (\<lambda>d t. replaceEvery (original d) (replacement d) t)
          (filter ?P (sortByOriginalLength detections)) streamingContent"
  proof (rule fold_cong_set)
    fix d t assume "d \<in> set (filter ?P (sortByOriginalLength detections))"
    then have "d \<in> set detections"
      by (simp add: sortByOriginalLength_def)
    with assms have "CHR ''$'' \<notin> set (replacement d)"
      by blast
    then show "regexReplaceAll canonicalize (original d) (replacement d) [] t
             = replaceEvery (original d) (replacement d) t"
      by (rule regexReplaceAll_replaceEvery)
  qed
  also have "filter ?P (sortByOriginalLength detections)
           = sortByOriginalLength (filter ?P detections)"
    by (simp add: sortByOriginalLength_def filter_sort)
  finally show ?thesis
    by (simp add: reconstructSpec_def)
qed

text \<open>
  C9 (Streaming Reconstructor), as the claim states it: the stored content is the result of
  replacing, for each detection in the order of the sort, every occurrence of its original
  by its replacement. The code skips a detection whose original or replacement is empty:
  with the replacement of \<^verbatim>\<open>John\<close> empty, the procedure of the claim removes the name and the
  code keeps the accumulated text.
\<close>

theorem completeContent_skips_empty:
  "completeContent None (Some [emptyReplacement]) ''John met''
     \<noteq> reconstructSpec ''John met'' [emptyReplacement]"
  by code_simp

text \<open>
  C9, amended: when the complete event has detections and no anonymized text, and no
  replacement contains a dollar sign (which the replacement of the host language reads as the
  start of a substitution pattern), the stored content is the result of the procedure of the
  claim on the detections whose original and replacement are both non-empty.
\<close>

theorem completeContent_reconstructs:
  assumes "anonymized_text = None \<or> anonymized_text = Some []"
      and "detections \<noteq> []"
      and "\<forall>d\<in>set detections. CHR ''$'' \<notin> set (replacement d)"
  shows "completeContent anonymized_text (Some detections) streamingContent
         = reconstructSpec streamingContent
             (filter (\<lambda>d. original d \<noteq> [] \<and> replacement d \<noteq> []) detections)"
proof -
  let ?P = "\<lambda>d. original d \<noteq> [] \<and> replacement d \<noteq> []"
  let ?r = "reconstructSpec streamingContent (filter ?P detections)"
  have c: "constructFromDetections streamingContent detections = ?r"
    using assms(3) by (rule constructFromDetections_spec)
  have "\<forall>d\<in>set (sortByOriginalLength (filter ?P detections)). ?P d"
    by (simp add: sortByOriginalLength_def)
  then have e: "(?r = []) = (streamingContent = [])"
    unfolding reconstructSpec_def by (rule fold_replaceEvery_empty_iff)
  from assms(1,2) have "completeContent anonymized_text (Some detections) streamingContent
      = (if ?r \<noteq> [] then ?r else streamingContent)"
    by (auto simp: completeContent_def Let_def c)
  with e show ?thesis
    by auto
qed

theorem completeContent_reconstructs_witness:
  "streamDetections \<noteq> []
   \<and> list_all (\<lambda>d. CHR ''$'' \<notin> set (replacement d)) streamDetections
   \<and> completeContent None (Some streamDetections) ''John met JOHN SMITH and john''
       = ''[NAME_1] met [NAME_2] and [NAME_1]''"
proof -
  have a: "(None :: string option) = None \<or> (None :: string option) = Some []"
    by simp
  have b: "streamDetections \<noteq> []"
    by (simp add: streamDetections_def)
  have c: "\<forall>d\<in>set streamDetections. CHR ''$'' \<notin> set (replacement d)"
    by (simp add: streamDetections_def)
  have r: "reconstructSpec ''John met JOHN SMITH and john''
             (filter (\<lambda>d. original d \<noteq> [] \<and> replacement d \<noteq> []) streamDetections)
           = ''[NAME_1] met [NAME_2] and [NAME_1]''"
    by code_simp
  from completeContent_reconstructs[OF a b c, of "''John met JOHN SMITH and john''"] b c r
  show ?thesis
    by (simp add: list_all_iff)
qed

section \<open>Replace-All on three occurrences\<close>

subsection \<open>The allocated placeholder does not occur in the text\<close>















subsection \<open>The text along its matches\<close>







subsection \<open>Where the placeholder stands in the new text\<close>








subsection \<open>The insertion loop on three positions\<close>





















subsection \<open>The three occurrences\<close>









end
